theory Spec2Isabelle
  imports Main "HOL-Library.Multiset" "HOL-Library.Sublist"
begin

section \<open>Strings and the built-ins of the platform\<close>

text \<open>
  The module under verification is \<^verbatim>\<open>web/shared/src/typeahead.ts\<close>. A string is a list of
  characters. The operations of \<^verbatim>\<open>String.prototype\<close> that only compare characters
  (\<^verbatim>\<open>startsWith\<close>, \<^verbatim>\<open>includes\<close>, \<^verbatim>\<open>split\<close>) are defined below for any character type.

  Four built-ins depend on the Unicode character database or on the engine:
  \<^verbatim>\<open>toLowerCase\<close>, \<^verbatim>\<open>normalize("NFKD")\<close>, \<^verbatim>\<open>replace\<close> with the pattern \<^verbatim>\<open>/\p{M}/gu\<close> and
  the empty replacement, and \<^verbatim>\<open>Array.prototype.sort\<close>. They are parameters (\<open>toLowerCase\<close>,
  \<open>normalize_NFKD\<close>, \<open>replace_marks\<close>, \<open>Array_sort\<close>) of every function that calls them, so
  a theorem without a hypothesis on them holds whatever they compute. What the two
  built-ins of \<open>remove_diacritics\<close> do on the UTF-16 strings of the engine is defined
  below, from the Unicode standard and the ECMAScript specification, for the property
  that rests on it.
\<close>

definition startsWith :: "'c list \<Rightarrow> 'c list \<Rightarrow> bool" where
  "startsWith s q = (take (length q) s = q)"

text \<open>\<^verbatim>\<open>s.includes(q)\<close>: \<open>q\<close> occurs in \<open>s\<close> as a contiguous run of characters.\<close>

fun includes_str :: "'c list \<Rightarrow> 'c list \<Rightarrow> bool" where
  "includes_str [] q = (q = [])"
| "includes_str (c # s) q = (startsWith (c # s) q \<or> includes_str s q)"

text \<open>
  \<^verbatim>\<open>s.split(sep)\<close> with a string separator. The empty separator cuts between all
  characters (and gives no token for the empty string); otherwise the string is scanned
  from the left, \<open>cur\<close> holding the token read so far, and every occurrence of \<open>sep\<close>
  closes a token.
\<close>

fun split_from :: "'c list \<Rightarrow> 'c list \<Rightarrow> 'c list \<Rightarrow> 'c list list" where
  "split_from sep cur [] = [cur]"
| "split_from sep cur (c # s) =
     (if sep \<noteq> [] \<and> startsWith (c # s) sep
      then cur # split_from sep [] (drop (length sep) (c # s))
      else split_from sep (cur @ [c]) s)"

definition split :: "'c list \<Rightarrow> 'c list \<Rightarrow> 'c list list" where
  "split s sep = (if sep = [] then map (\<lambda>c. [c]) s else split_from sep [] s)"

text \<open>
  \<^verbatim>\<open>s.normalize("NFKD").replace(unicode_marks, "")\<close>, where \<^verbatim>\<open>unicode_marks\<close> is the
  pattern \<^verbatim>\<open>/\p{M}/gu\<close>: the string is normalised, then the marks are deleted from the
  normalised string.
\<close>

definition remove_diacritics ::
  "('c list \<Rightarrow> 'c list) \<Rightarrow> ('c list \<Rightarrow> 'c list) \<Rightarrow> 'c list \<Rightarrow> 'c list" where
  "remove_diacritics normalize_NFKD replace_marks s = replace_marks (normalize_NFKD s)"

subsection \<open>The built-ins on ASCII strings\<close>

text \<open>
  On strings of ASCII characters the built-ins are these functions: \<^verbatim>\<open>toLowerCase\<close>
  maps \<^verbatim>\<open>A\<close>..\<^verbatim>\<open>Z\<close> to \<^verbatim>\<open>a\<close>..\<^verbatim>\<open>z\<close>, NFKD changes nothing, and no ASCII character is a
  combining mark, so deleting the marks changes nothing. They evaluate the functions at
  concrete inputs.
\<close>

definition ascii_lower_char :: "char \<Rightarrow> char" where
  "ascii_lower_char c =
     (case map_of (zip ''ABCDEFGHIJKLMNOPQRSTUVWXYZ'' ''abcdefghijklmnopqrstuvwxyz'') c of
        Some d \<Rightarrow> d
      | None \<Rightarrow> c)"

definition ascii_toLowerCase :: "string \<Rightarrow> string" where
  "ascii_toLowerCase s = map ascii_lower_char s"

definition ascii_normalize_NFKD :: "string \<Rightarrow> string" where
  "ascii_normalize_NFKD s = s"

definition ascii_replace_marks :: "string \<Rightarrow> string" where
  "ascii_replace_marks s = s"

subsection \<open>Sorting\<close>

text \<open>
  A stable insertion sort by a comparator: what \<^verbatim>\<open>Array.prototype.sort\<close> returns for a
  consistent comparator (the order of elements that compare equal is kept).
\<close>

fun insert_by :: "('a \<Rightarrow> 'a \<Rightarrow> int) \<Rightarrow> 'a \<Rightarrow> 'a list \<Rightarrow> 'a list" where
  "insert_by cmp x [] = [x]"
| "insert_by cmp x (y # ys) = (if cmp x y \<le> 0 then x # y # ys else y # insert_by cmp x ys)"

fun stable_sort :: "('a \<Rightarrow> 'a \<Rightarrow> int) \<Rightarrow> 'a list \<Rightarrow> 'a list" where
  "stable_sort cmp [] = []"
| "stable_sort cmp (x # xs) = insert_by cmp x (stable_sort cmp xs)"

subsection \<open>Normalisation\<close>

text \<open>
  NFKD of a sequence of code points, as the Unicode standard defines it (UAX 15), over the
  two tables of the character database it reads: \<open>decompose\<close>, the full compatibility
  decomposition of a code point, and
  \<open>ccc\<close>, its canonical combining class. Every code point is replaced by its decomposition;
  then every run of characters of non-zero class is put in order of class, characters of
  the same class keeping their order (\<open>insert_canonical\<close> moves a character behind the
  characters of smaller non-zero class that follow it).
\<close>

fun insert_canonical :: "('c \<Rightarrow> nat) \<Rightarrow> 'c \<Rightarrow> 'c list \<Rightarrow> 'c list" where
  "insert_canonical ccc c [] = [c]"
| "insert_canonical ccc c (d # t) =
     (if ccc c \<noteq> 0 \<and> ccc d \<noteq> 0 \<and> ccc d < ccc c then d # insert_canonical ccc c t
      else c # d # t)"

fun canonical_order :: "('c \<Rightarrow> nat) \<Rightarrow> 'c list \<Rightarrow> 'c list" where
  "canonical_order ccc [] = []"
| "canonical_order ccc (c # s) = insert_canonical ccc c (canonical_order ccc s)"

definition NFKD :: "('c \<Rightarrow> 'c list) \<Rightarrow> ('c \<Rightarrow> nat) \<Rightarrow> 'c list \<Rightarrow> 'c list" where
  "NFKD decompose ccc s = canonical_order ccc (concat (map decompose s))"

subsection \<open>UTF-16 strings\<close>

text \<open>
  The strings of the engine are sequences of UTF-16 code units, numbers below
  \<open>0x10000\<close>. Both \<^verbatim>\<open>normalize\<close> and a pattern with the flag \<^verbatim>\<open>u\<close> read such a string as
  code points: a high surrogate followed by a low surrogate is one code point, and every
  other code unit, an unpaired surrogate too, is a code point by itself (\<open>code_points\<close>).
  Their result is again a sequence of code units (\<open>code_units\<close>), so two unpaired
  surrogates that come to stand side by side are one code point for whoever reads the
  result. A string is well formed when it has no unpaired surrogate: all its code points
  are Unicode scalar values.
\<close>

definition high_surrogate :: "nat \<Rightarrow> bool" where
  "high_surrogate u = (0xD800 \<le> u \<and> u \<le> 0xDBFF)"

definition low_surrogate :: "nat \<Rightarrow> bool" where
  "low_surrogate u = (0xDC00 \<le> u \<and> u \<le> 0xDFFF)"

fun code_points :: "nat list \<Rightarrow> nat list" where
  "code_points [] = []"
| "code_points [u] = [u]"
| "code_points (h # l # s) =
     (if high_surrogate h \<and> low_surrogate l
      then (0x10000 + (h - 0xD800) * 0x400 + (l - 0xDC00)) # code_points s
      else h # code_points (l # s))"

fun code_units :: "nat list \<Rightarrow> nat list" where
  "code_units [] = []"
| "code_units (p # ps) =
     (if 0x10000 \<le> p
      then (0xD800 + (p - 0x10000) div 0x400) # (0xDC00 + (p - 0x10000) mod 0x400) # code_units ps
      else p # code_units ps)"

definition scalar_value :: "nat \<Rightarrow> bool" where
  "scalar_value p = ((p < 0xD800 \<or> 0xE000 \<le> p) \<and> p < 0x110000)"

definition well_formed :: "nat list \<Rightarrow> bool" where
  "well_formed s = (list_all (\<lambda>u. u < 0x10000) s \<and> list_all scalar_value (code_points s))"

text \<open>
  \<^verbatim>\<open>normalize("NFKD")\<close> normalises the code points of the string; \<^verbatim>\<open>replace\<close> with the
  pattern \<^verbatim>\<open>/\p{M}/gu\<close> and the empty replacement deletes every code point of the string
  that is a mark (\<open>unicode_mark\<close>, the general category M of the character database) and
  keeps the code units of all others.
\<close>

definition utf16_normalize_NFKD ::
  "(nat \<Rightarrow> nat list) \<Rightarrow> (nat \<Rightarrow> nat) \<Rightarrow> nat list \<Rightarrow> nat list" where
  "utf16_normalize_NFKD decompose ccc s = code_units (NFKD decompose ccc (code_points s))"

definition utf16_replace_marks :: "(nat \<Rightarrow> bool) \<Rightarrow> nat list \<Rightarrow> nat list" where
  "utf16_replace_marks unicode_mark s =
     code_units (filter (\<lambda>p. \<not> unicode_mark p) (code_points s))"

text \<open>
  A fragment of the tables: the letters U+00C5 and U+00E9 and the compatibility character
  U+212B decompose into a base letter and a combining mark; U+0301 and U+030A have class
  230, U+0323 has class 220, the musical mark U+1D167 has class 1; the block
  U+0300..U+036F and U+1D167..U+1D169 hold marks only.
\<close>

definition latin_decompose :: "nat \<Rightarrow> nat list" where
  "latin_decompose c =
     (if c = 0xC5 \<or> c = 0x212B then [0x41, 0x30A]
      else if c = 0xE9 then [0x65, 0x301]
      else [c])"

definition latin_ccc :: "nat \<Rightarrow> nat" where
  "latin_ccc c =
     (if c = 0x323 then 220 else if c = 0x301 \<or> c = 0x30A then 230
      else if c = 0x1D167 then 1 else 0)"

definition latin_mark :: "nat \<Rightarrow> bool" where
  "latin_mark c = ((0x300 \<le> c \<and> c \<le> 0x36F) \<or> (0x1D167 \<le> c \<and> c \<le> 0x1D169))"

text \<open>\<^verbatim>\<open>toLowerCase\<close> on strings of code points below U+0100.\<close>

definition latin_toLowerCase :: "nat list \<Rightarrow> nat list" where
  "latin_toLowerCase s =
     map (\<lambda>c. if (0x41 \<le> c \<and> c \<le> 0x5A) \<or> (0xC0 \<le> c \<and> c \<le> 0xDE \<and> c \<noteq> 0xD7)
              then c + 0x20 else c) s"


section \<open>String matcher\<close>

definition query_matches_string ::
  "('c list \<Rightarrow> 'c list) \<Rightarrow> ('c list \<Rightarrow> 'c list) \<Rightarrow> ('c list \<Rightarrow> 'c list) \<Rightarrow>
     'c list \<Rightarrow> 'c list \<Rightarrow> 'c list \<Rightarrow> bool" where
  "query_matches_string toLowerCase normalize_NFKD replace_marks query source_str split_char =
     (let source_str = toLowerCase source_str;
          source_str = remove_diacritics normalize_NFKD replace_marks source_str
      in if \<not> includes_str query split_char then includes_str source_str query
         else
           let queries = split query split_char;
               source_arr = split source_str split_char
           in list_all (\<lambda>query. list_ex (\<lambda>source. startsWith source query) source_arr)
                queries)"


section \<open>Regular expressions of the word-boundary test\<close>

text \<open>
  \<^verbatim>\<open>_.escapeRegExp\<close> of lodash puts a backslash before each of the characters
  \<^verbatim>\<open>^ $ \ . * + ? ( ) [ ] { } |\<close> and leaves every other character as it is.
\<close>

definition backslash :: char where
  "backslash = CHR 0x5C"

definition syntax_chars :: string where
  "syntax_chars = [CHR ''^'', CHR ''$'', backslash, CHR ''.'', CHR ''*'', CHR ''+'', CHR ''?'',
     CHR ''('', CHR '')'', CHR ''['', CHR '']'', CHR ''{'', CHR ''}'', CHR ''|'']"

fun escapeRegExp :: "string \<Rightarrow> string" where
  "escapeRegExp [] = []"
| "escapeRegExp (c # s) =
     (if c \<in> set syntax_chars then backslash # c # escapeRegExp s else c # escapeRegExp s)"

text \<open>
  The patterns that \<open>triage_raw\<close> builds are a character class followed by literal
  characters. \<open>parse_re\<close> reads this fragment of the pattern syntax: a class
  \<^verbatim>\<open>[...]\<close> of plain characters (a \<^verbatim>\<open>-\<close> only as its last member, where it stands for
  itself), a backslash followed by a syntax character (the character itself), and any
  character that is not a syntax character (itself). Its first argument is the class being
  read, if any. Every other pattern gives \<open>None\<close>: it is a syntax error or outside the
  fragment.
\<close>

datatype re_atom = Lit char | OneOf "char list"

fun parse_re :: "char list option \<Rightarrow> string \<Rightarrow> re_atom list option" where
  "parse_re None [] = Some []"
| "parse_re (Some ms) [] = None"
| "parse_re None [c] =
     (if c \<in> set syntax_chars then None else Some [Lit c])"
| "parse_re None (c # d # s) =
     (if c = CHR ''['' then (if d = CHR ''^'' then None else parse_re (Some []) (d # s))
      else if c = backslash
        then (if d \<in> set syntax_chars then map_option (Cons (Lit d)) (parse_re None s)
              else None)
      else if c \<in> set syntax_chars then None
      else map_option (Cons (Lit c)) (parse_re None (d # s)))"
| "parse_re (Some ms) (c # s) =
     (if c = CHR '']'' then map_option (Cons (OneOf ms)) (parse_re None s)
      else if c = backslash then None
      else if c = CHR ''-'' \<and> take 1 s \<noteq> '']'' then None
      else parse_re (Some (ms @ [c])) s)"

fun atom_matches :: "re_atom \<Rightarrow> char \<Rightarrow> bool" where
  "atom_matches (Lit d) c = (c = d)"
| "atom_matches (OneOf ms) c = (c \<in> set ms)"

fun match_here :: "re_atom list \<Rightarrow> string \<Rightarrow> bool" where
  "match_here [] s = True"
| "match_here (a # as) [] = False"
| "match_here (a # as) (c # s) = (atom_matches a c \<and> match_here as s)"

fun match_anywhere :: "re_atom list \<Rightarrow> string \<Rightarrow> bool" where
  "match_anywhere as [] = match_here as []"
| "match_anywhere as (c # s) = (match_here as (c # s) \<or> match_anywhere as s)"

text \<open>\<^verbatim>\<open>new RegExp(pattern).test(s)\<close>, without flags: a match starting at any position.\<close>

definition RegExp_test :: "string \<Rightarrow> string \<Rightarrow> bool option" where
  "RegExp_test pattern s = map_option (\<lambda>as. match_anywhere as s) (parse_re None pattern)"


section \<open>Triage\<close>

definition word_boundary_chars :: string where
  "word_boundary_chars = '' _/-''"

record 'a triage_raw_result =
  exact_matches :: "'a list"
  begins_with_case_sensitive_matches :: "'a list"
  begins_with_case_insensitive_matches :: "'a list"
  word_boundary_matches :: "'a list"
  no_matches :: "'a list"

text \<open>The body of the loop of \<open>triage_raw\<close>: \<open>obj\<close> is pushed on one of the five arrays.\<close>

definition triage_push ::
  "(string \<Rightarrow> string) \<Rightarrow> string \<Rightarrow> string \<Rightarrow> ('a \<Rightarrow> string) \<Rightarrow>
     'a triage_raw_result \<Rightarrow> 'a \<Rightarrow> 'a triage_raw_result" where
  "triage_push toLowerCase query lower_query get_item r obj =
     (let item = get_item obj;
          lower_item = toLowerCase item
      in if lower_item = lower_query
           then r\<lparr>exact_matches := exact_matches r @ [obj]\<rparr>
         else if startsWith item query
           then r\<lparr>begins_with_case_sensitive_matches :=
                    begins_with_case_sensitive_matches r @ [obj]\<rparr>
         else if startsWith lower_item lower_query
           then r\<lparr>begins_with_case_insensitive_matches :=
                    begins_with_case_insensitive_matches r @ [obj]\<rparr>
         else if RegExp_test (''['' @ word_boundary_chars @ '']'' @ escapeRegExp lower_query)
                   lower_item = Some True
           then r\<lparr>word_boundary_matches := word_boundary_matches r @ [obj]\<rparr>
         else r\<lparr>no_matches := no_matches r @ [obj]\<rparr>)"

definition triage_raw ::
  "(string \<Rightarrow> string) \<Rightarrow> string \<Rightarrow> 'a list \<Rightarrow> ('a \<Rightarrow> string) \<Rightarrow> 'a triage_raw_result" where
  "triage_raw toLowerCase query objs get_item =
     (let lower_query = (if query \<noteq> [] then toLowerCase query else [])
      in foldl (triage_push toLowerCase query lower_query get_item)
           \<lparr>exact_matches = [], begins_with_case_sensitive_matches = [],
            begins_with_case_insensitive_matches = [], word_boundary_matches = [],
            no_matches = []\<rparr>
           objs)"

record 'a triage_result =
  matches :: "'a list"
  rest :: "'a list"

definition triage ::
  "(('a \<Rightarrow> 'a \<Rightarrow> int) \<Rightarrow> 'a list \<Rightarrow> 'a list) \<Rightarrow> (string \<Rightarrow> string) \<Rightarrow>
     string \<Rightarrow> 'a list \<Rightarrow> ('a \<Rightarrow> string) \<Rightarrow> ('a \<Rightarrow> 'a \<Rightarrow> int) option \<Rightarrow> 'a triage_result" where
  "triage Array_sort toLowerCase query objs get_item sorting_comparator =
     (let r = triage_raw toLowerCase query objs get_item
      in case sorting_comparator of
           Some cmp \<Rightarrow>
             (let beginning_matches_sorted =
                    Array_sort cmp (begins_with_case_sensitive_matches r @
                                    begins_with_case_insensitive_matches r)
              in \<lparr>matches = Array_sort cmp (exact_matches r) @ beginning_matches_sorted @
                             Array_sort cmp (word_boundary_matches r),
                  rest = Array_sort cmp (no_matches r)\<rparr>)
         | None \<Rightarrow>
             \<lparr>matches = exact_matches r @ begins_with_case_sensitive_matches r @
                         begins_with_case_insensitive_matches r @ word_boundary_matches r,
              rest = no_matches r\<rparr>)"

text \<open>
  The five tests of the loop, as a classifier of one projected string (used to state what
  the buckets hold). The fourth test is the one the pattern stands for: somewhere in the
  lower-cased item a boundary character is followed by the lower-cased query.
\<close>

datatype bucket = Exact | Prefix_cs | Prefix_ci | Word_boundary | No_match

fun follows_boundary :: "string \<Rightarrow> string \<Rightarrow> bool" where
  "follows_boundary q [] = False"
| "follows_boundary q (c # s) =
     ((c \<in> {CHR '' '', CHR ''_'', CHR ''/'', CHR ''-''} \<and> startsWith s q) \<or> follows_boundary q s)"

definition classify :: "(string \<Rightarrow> string) \<Rightarrow> string \<Rightarrow> string \<Rightarrow> bucket" where
  "classify toLowerCase query item =
     (let lower_query = (if query \<noteq> [] then toLowerCase query else []);
          lower_item = toLowerCase item
      in if lower_item = lower_query then Exact
         else if startsWith item query then Prefix_cs
         else if startsWith lower_item lower_query then Prefix_ci
         else if follows_boundary lower_query lower_item then Word_boundary
         else No_match)"

definition in_bucket ::
  "(string \<Rightarrow> string) \<Rightarrow> string \<Rightarrow> ('a \<Rightarrow> string) \<Rightarrow> bucket \<Rightarrow> 'a \<Rightarrow> bool" where
  "in_bucket toLowerCase query get_item b obj = (classify toLowerCase query (get_item obj) = b)"

definition buckets :: "'a triage_raw_result \<Rightarrow> 'a list list" where
  "buckets r = [exact_matches r, begins_with_case_sensitive_matches r,
     begins_with_case_insensitive_matches r, word_boundary_matches r, no_matches r]"


section \<open>Emoji ranking\<close>

definition popular_emojis :: "string list" where
  "popular_emojis = [''1f44d'', ''1f389'', ''1f642'', ''2764'', ''1f6e0'', ''1f419'']"

text \<open>
  The type \<^verbatim>\<open>Emoji\<close> is a union of two shapes, told apart by \<^verbatim>\<open>reaction_type\<close> and by
  \<^verbatim>\<open>is_realm_emoji\<close> alike: a realm emoji (reaction type \<^verbatim>\<open>realm_emoji\<close> or
  \<^verbatim>\<open>zulip_extra_emoji\<close>, \<^verbatim>\<open>is_realm_emoji: true\<close>) has a name; a unicode emoji
  (\<^verbatim>\<open>is_realm_emoji: false\<close>) has a name and a code. \<^verbatim>\<open>sort_emojis\<close> takes any
  \<^verbatim>\<open>T extends Emoji\<close>: the last field holds whatever else the objects carry.
\<close>

datatype realm_reaction_type = realm_emoji | zulip_extra_emoji

datatype 'x emoji =
    is_realm_emoji: RealmEmoji (emoji_name: string) (reaction_type: realm_reaction_type) (more: 'x)
  | is_unicode_emoji: UnicodeEmoji (emoji_name: string) (emoji_code: string) (more: 'x)

text \<open>\<^verbatim>\<open>query.replace(/ /g, "_")\<close>\<close>

definition replace_spaces :: "string \<Rightarrow> string" where
  "replace_spaces query = map (\<lambda>c. if c = CHR '' '' then CHR ''_'' else c) query"

definition decent_match :: "(string \<Rightarrow> string) \<Rightarrow> string \<Rightarrow> string \<Rightarrow> bool" where
  "decent_match toLowerCase query name =
     (let pieces = split (toLowerCase name) ''_''
      in list_ex (\<lambda>piece. startsWith piece query) pieces)"

fun is_popular :: "(string \<Rightarrow> string) \<Rightarrow> string \<Rightarrow> 'x emoji \<Rightarrow> bool" where
  "is_popular toLowerCase query (UnicodeEmoji name code x) =
     (code \<in> set popular_emojis \<and> decent_match toLowerCase query name)"
| "is_popular toLowerCase query (RealmEmoji name rt x) = False"

definition realm_emoji_names :: "'x emoji list \<Rightarrow> string set" where
  "realm_emoji_names objs = set (map emoji_name (filter is_realm_emoji objs))"

definition prioritise_realm_emojis :: "'x emoji list \<Rightarrow> 'x emoji list" where
  "prioritise_realm_emojis emojis =
     filter is_realm_emoji emojis @ filter (\<lambda>emoji. \<not> is_realm_emoji emoji) emojis"

definition sorted_results_with_possible_duplicates ::
  "(('x emoji \<Rightarrow> 'x emoji \<Rightarrow> int) \<Rightarrow> 'x emoji list \<Rightarrow> 'x emoji list) \<Rightarrow> (string \<Rightarrow> string) \<Rightarrow>
     'x emoji list \<Rightarrow> string \<Rightarrow> 'x emoji list" where
  "sorted_results_with_possible_duplicates Array_sort toLowerCase objs query =
     (let perfect_emoji_matches = filter (\<lambda>obj. emoji_name obj = query) objs;
          without_perfect_matches = filter (\<lambda>obj. emoji_name obj \<noteq> query) objs;
          popular_emoji_matches =
            filter (\<lambda>obj. is_popular toLowerCase query obj) without_perfect_matches;
          others = filter (\<lambda>obj. \<not> is_popular toLowerCase query obj) without_perfect_matches;
          triage_results = triage Array_sort toLowerCase query others emoji_name None
      in perfect_emoji_matches @ popular_emoji_matches @
         prioritise_realm_emojis (matches triage_results) @
         prioritise_realm_emojis (rest triage_results))"

text \<open>
  The body of the de-duplication loop; the state is the set \<^verbatim>\<open>unicode_emoji_codes\<close> and
  the array \<^verbatim>\<open>sorted_unique_results\<close>.
\<close>

fun unique_push ::
  "string set \<Rightarrow> string set \<times> 'x emoji list \<Rightarrow> 'x emoji \<Rightarrow> string set \<times> 'x emoji list" where
  "unique_push realm_names (unicode_emoji_codes, sorted_unique_results) emoji =
     (if \<not> is_unicode_emoji emoji
        then (unicode_emoji_codes, sorted_unique_results @ [emoji])
      else if emoji_code emoji \<notin> unicode_emoji_codes \<and> emoji_name emoji \<notin> realm_names
        then (insert (emoji_code emoji) unicode_emoji_codes, sorted_unique_results @ [emoji])
      else (unicode_emoji_codes, sorted_unique_results))"

definition remove_duplicates :: "string set \<Rightarrow> 'x emoji list \<Rightarrow> 'x emoji list" where
  "remove_duplicates realm_names emojis = snd (foldl (unique_push realm_names) ({}, []) emojis)"

definition sort_emojis ::
  "(('x emoji \<Rightarrow> 'x emoji \<Rightarrow> int) \<Rightarrow> 'x emoji list \<Rightarrow> 'x emoji list) \<Rightarrow> (string \<Rightarrow> string) \<Rightarrow>
     'x emoji list \<Rightarrow> string \<Rightarrow> 'x emoji list" where
  "sort_emojis Array_sort toLowerCase objs query =
     (let query = replace_spaces query;
          query = toLowerCase query
      in remove_duplicates (realm_emoji_names objs)
           (sorted_results_with_possible_duplicates Array_sort toLowerCase objs query))"


section \<open>The word-boundary pattern\<close>

lemma parse_re_plain:
  "c \<notin> set syntax_chars \<Longrightarrow> parse_re None (c # s) = map_option (Cons (Lit c)) (parse_re None s)"
  by (cases s) (auto simp: syntax_chars_def backslash_def)

lemma parse_re_escaped:
  "c \<in> set syntax_chars \<Longrightarrow>
     parse_re None (backslash # c # s) = map_option (Cons (Lit c)) (parse_re None s)"
  by (simp add: backslash_def)

lemma parse_re_escapeRegExp: "parse_re None (escapeRegExp q) = Some (map Lit q)"
  by (induction q) (simp_all add: parse_re_plain parse_re_escaped del: parse_re.simps(4))

lemma parse_re_boundary_class:
  "parse_re None (''['' @ word_boundary_chars @ '']'' @ p) =
     map_option (Cons (OneOf word_boundary_chars)) (parse_re None p)"
  by (simp add: word_boundary_chars_def backslash_def)

lemma match_here_literal: "match_here (map Lit q) s = startsWith s q"
proof (induction q arbitrary: s)
  case Nil
  show ?case by (simp add: startsWith_def)
next
  case (Cons c q)
  show ?case by (cases s) (auto simp: Cons.IH startsWith_def)
qed

lemma match_anywhere_boundary:
  "match_anywhere (OneOf word_boundary_chars # map Lit q) s = follows_boundary q s"
  by (induction s) (auto simp: match_here_literal word_boundary_chars_def)

lemma RegExp_test_boundary:
  "RegExp_test (''['' @ word_boundary_chars @ '']'' @ escapeRegExp q) s
     = Some (follows_boundary q s)"
  unfolding RegExp_test_def parse_re_boundary_class
  by (simp add: parse_re_escapeRegExp match_anywhere_boundary)

section \<open>Substrings\<close>

lemma startsWith_iff: "startsWith s q \<longleftrightarrow> (\<exists>post. s = q @ post)"
  unfolding startsWith_def
  by (metis append_eq_conv_conj append_take_drop_id)

lemma includes_str_iff: "includes_str s q \<longleftrightarrow> (\<exists>pre post. s = pre @ q @ post)"
proof (induction s)
  case Nil
  show ?case by auto
next
  case (Cons c s)
  show ?case
  proof
    assume "includes_str (c # s) q"
    then consider "startsWith (c # s) q" | "includes_str s q" by auto
    then show "\<exists>pre post. c # s = pre @ q @ post"
    proof cases
      case 1
      then obtain post where "c # s = q @ post" by (auto simp: startsWith_iff)
      then have "c # s = [] @ q @ post" by simp
      then show ?thesis by blast
    next
      case 2
      then obtain pre post where "s = pre @ q @ post" using Cons.IH by auto
      then have "c # s = (c # pre) @ q @ post" by simp
      then show ?thesis by blast
    qed
  next
    assume "\<exists>pre post. c # s = pre @ q @ post"
    then obtain pre post where e: "c # s = pre @ q @ post" by auto
    show "includes_str (c # s) q"
    proof (cases pre)
      case Nil
      with e have "startsWith (c # s) q" by (auto simp: startsWith_iff)
      then show ?thesis by simp
    next
      case (Cons d pre')
      with e have "s = pre' @ q @ post" by simp
      then have "includes_str s q" using Cons.IH by blast
      then show ?thesis by simp
    qed
  qed
qed

text \<open>
  Two facts of \<open>split\<close> with a non-empty separator: the tokens, each after a separator, make
  up the string after a separator; and no token of a split on one character holds that
  character.
\<close>

lemma split_from_separated:
  "sep \<noteq> [] \<Longrightarrow> concat (map (\<lambda>t. sep @ t) (split_from sep cur s)) = sep @ cur @ s"
proof (induction sep cur s rule: split_from.induct)
  case (1 sep cur)
  show ?case by simp
next
  case (2 sep cur c s)
  show ?case
  proof (cases "startsWith (c # s) sep")
    case True
    then have "c # s = sep @ drop (length sep) (c # s)"
      by (metis append_take_drop_id startsWith_def)
    with 2 True show ?thesis by simp
  next
    case False
    with 2 show ?thesis by simp
  qed
qed

lemma split_separated:
  "sep \<noteq> [] \<Longrightarrow> concat (map (\<lambda>t. sep @ t) (split s sep)) = sep @ s"
  by (simp add: split_def split_from_separated)

lemma split_from_single:
  "c \<notin> set cur \<Longrightarrow> t \<in> set (split_from [c] cur s) \<Longrightarrow> c \<notin> set t"
proof (induction "[c]" cur s arbitrary: t rule: split_from.induct)
  case (1 cur)
  then show ?case by simp
next
  case (2 cur d s)
  then show ?case by (auto simp: startsWith_def split: if_splits)
qed

lemma split_single: "t \<in> set (split s [c]) \<Longrightarrow> c \<notin> set t"
  using split_from_single [of c "[]" t s] by (simp add: split_def)

lemma follows_boundary_iff:
  "follows_boundary q s \<longleftrightarrow>
     (\<exists>pre c post. s = pre @ c # q @ post \<and> c \<in> set word_boundary_chars)"
proof (induction s)
  case Nil
  show ?case by auto
next
  case (Cons d s)
  show ?case
  proof
    assume "follows_boundary q (d # s)"
    then consider "d \<in> set word_boundary_chars" "startsWith s q" | "follows_boundary q s"
      by (auto simp: word_boundary_chars_def)
    then show "\<exists>pre c post. d # s = pre @ c # q @ post \<and> c \<in> set word_boundary_chars"
    proof cases
      case 1
      then obtain post where "s = q @ post" by (auto simp: startsWith_iff)
      then have "d # s = [] @ d # q @ post" by simp
      with 1 show ?thesis by blast
    next
      case 2
      then obtain pre c post where "s = pre @ c # q @ post" "c \<in> set word_boundary_chars"
        using Cons.IH by auto
      then have "d # s = (d # pre) @ c # q @ post \<and> c \<in> set word_boundary_chars" by simp
      then show ?thesis by blast
    qed
  next
    assume "\<exists>pre c post. d # s = pre @ c # q @ post \<and> c \<in> set word_boundary_chars"
    then obtain pre c post where e: "d # s = pre @ c # q @ post"
      and c: "c \<in> set word_boundary_chars" by auto
    show "follows_boundary q (d # s)"
    proof (cases pre)
      case Nil
      with e have "d = c" "startsWith s q" by (auto simp: startsWith_iff)
      with c show ?thesis by (auto simp: word_boundary_chars_def)
    next
      case (Cons d' pre')
      with e have "s = pre' @ c # q @ post" by simp
      with c have "follows_boundary q s" using Cons.IH by blast
      then show ?thesis by simp
    qed
  qed
qed

section \<open>The buckets of triage\<close>

lemma triage_push_classify:
  "triage_push lc query (if query \<noteq> [] then lc query else []) get_item r obj =
     (case classify lc query (get_item obj) of
        Exact \<Rightarrow> r\<lparr>exact_matches := exact_matches r @ [obj]\<rparr>
      | Prefix_cs \<Rightarrow> r\<lparr>begins_with_case_sensitive_matches :=
                         begins_with_case_sensitive_matches r @ [obj]\<rparr>
      | Prefix_ci \<Rightarrow> r\<lparr>begins_with_case_insensitive_matches :=
                         begins_with_case_insensitive_matches r @ [obj]\<rparr>
      | Word_boundary \<Rightarrow> r\<lparr>word_boundary_matches := word_boundary_matches r @ [obj]\<rparr>
      | No_match \<Rightarrow> r\<lparr>no_matches := no_matches r @ [obj]\<rparr>)"
  unfolding triage_push_def classify_def RegExp_test_boundary by (simp add: Let_def)

lemma foldl_triage_push:
  "foldl (triage_push lc query (if query \<noteq> [] then lc query else []) get_item) r objs =
     \<lparr>exact_matches = exact_matches r @ filter (in_bucket lc query get_item Exact) objs,
      begins_with_case_sensitive_matches =
        begins_with_case_sensitive_matches r @ filter (in_bucket lc query get_item Prefix_cs) objs,
      begins_with_case_insensitive_matches =
        begins_with_case_insensitive_matches r @ filter (in_bucket lc query get_item Prefix_ci) objs,
      word_boundary_matches =
        word_boundary_matches r @ filter (in_bucket lc query get_item Word_boundary) objs,
      no_matches = no_matches r @ filter (in_bucket lc query get_item No_match) objs\<rparr>"
proof (induction objs arbitrary: r)
  case Nil
  show ?case by simp
next
  case (Cons x xs)
  define r' where "r' = triage_push lc query (if query \<noteq> [] then lc query else []) get_item r x"
  have step: "foldl (triage_push lc query (if query \<noteq> [] then lc query else []) get_item) r (x # xs)
      = foldl (triage_push lc query (if query \<noteq> [] then lc query else []) get_item) r' xs"
    by (simp add: r'_def)
  have r': "r' = (case classify lc query (get_item x) of
        Exact \<Rightarrow> r\<lparr>exact_matches := exact_matches r @ [x]\<rparr>
      | Prefix_cs \<Rightarrow> r\<lparr>begins_with_case_sensitive_matches :=
                         begins_with_case_sensitive_matches r @ [x]\<rparr>
      | Prefix_ci \<Rightarrow> r\<lparr>begins_with_case_insensitive_matches :=
                         begins_with_case_insensitive_matches r @ [x]\<rparr>
      | Word_boundary \<Rightarrow> r\<lparr>word_boundary_matches := word_boundary_matches r @ [x]\<rparr>
      | No_match \<Rightarrow> r\<lparr>no_matches := no_matches r @ [x]\<rparr>)"
    unfolding r'_def by (rule triage_push_classify)
  show ?case
    unfolding step Cons.IH [of r']
    by (cases "classify lc query (get_item x)") (simp_all add: r' in_bucket_def [abs_def])
qed

lemma triage_raw_filter:
  "triage_raw lc query objs get_item =
     \<lparr>exact_matches = filter (in_bucket lc query get_item Exact) objs,
      begins_with_case_sensitive_matches = filter (in_bucket lc query get_item Prefix_cs) objs,
      begins_with_case_insensitive_matches = filter (in_bucket lc query get_item Prefix_ci) objs,
      word_boundary_matches = filter (in_bucket lc query get_item Word_boundary) objs,
      no_matches = filter (in_bucket lc query get_item No_match) objs\<rparr>"
  unfolding triage_raw_def Let_def foldl_triage_push by simp

lemma mset_five_buckets:
  "mset (filter (in_bucket lc query get_item Exact) objs) +
   mset (filter (in_bucket lc query get_item Prefix_cs) objs) +
   mset (filter (in_bucket lc query get_item Prefix_ci) objs) +
   mset (filter (in_bucket lc query get_item Word_boundary) objs) +
   mset (filter (in_bucket lc query get_item No_match) objs) = mset objs"
proof (induction objs)
  case Nil
  show ?case by simp
next
  case (Cons x xs)
  show ?case using Cons.IH
    by (cases "classify lc query (get_item x)") (simp_all add: in_bucket_def [abs_def])
qed


lemma buckets_triage_raw:
  "buckets (triage_raw lc query objs get_item) =
     map (\<lambda>b. filter (in_bucket lc query get_item b) objs)
       [Exact, Prefix_cs, Prefix_ci, Word_boundary, No_match]"
  by (simp add: buckets_def triage_raw_filter)

lemma one_bucket:
  "length (filter (\<lambda>b. x \<in> set b) (buckets (triage_raw lc query objs get_item)))
     = (if x \<in> set objs then 1 else 0)"
  unfolding buckets_triage_raw
  by (cases "classify lc query (get_item x)") (simp_all add: in_bucket_def)

text \<open>
  Claim C1. The five buckets of \<open>triage_raw\<close> partition the input: their concatenation, in
  the order exact, case-sensitive prefix, case-insensitive prefix, word boundary, none, is a
  permutation of the input (so it repeats an item only where the input does), every item
  \<open>x\<close> of the input is in exactly one bucket and no other value is in any, and each bucket
  lists its items in input order.
\<close>

theorem triage_raw_partition:
  "mset (concat (buckets (triage_raw toLowerCase query objs get_item))) = mset objs
   \<and> distinct (concat (buckets (triage_raw toLowerCase query objs get_item))) = distinct objs
   \<and> length (filter (\<lambda>b. x \<in> set b) (buckets (triage_raw toLowerCase query objs get_item)))
       = (if x \<in> set objs then 1 else 0)
   \<and> subseq (exact_matches (triage_raw toLowerCase query objs get_item)) objs
   \<and> subseq (begins_with_case_sensitive_matches (triage_raw toLowerCase query objs get_item)) objs
   \<and> subseq (begins_with_case_insensitive_matches (triage_raw toLowerCase query objs get_item)) objs
   \<and> subseq (word_boundary_matches (triage_raw toLowerCase query objs get_item)) objs
   \<and> subseq (no_matches (triage_raw toLowerCase query objs get_item)) objs"
proof -
  have m: "mset (concat (buckets (triage_raw toLowerCase query objs get_item))) = mset objs"
    unfolding buckets_triage_raw using mset_five_buckets [of toLowerCase query get_item objs]
    by (simp add: ac_simps)
  have d: "distinct (concat (buckets (triage_raw toLowerCase query objs get_item))) = distinct objs"
    using m by (rule mset_eq_imp_distinct_iff)
  show ?thesis
    using m d one_bucket [of x toLowerCase query objs get_item]
    by (simp add: triage_raw_filter)
qed


lemma follows_boundary_chars:
  "follows_boundary q s \<longleftrightarrow>
     (\<exists>pre c post. s = pre @ c # q @ post \<and> c \<in> {CHR '' '', CHR ''_'', CHR ''/'', CHR ''-''})"
  unfolding follows_boundary_iff by (simp add: word_boundary_chars_def)

lemma classify_unfold:
  "classify lc query item =
     (if lc item = (if query \<noteq> [] then lc query else []) then Exact
      else if startsWith item query then Prefix_cs
      else if startsWith (lc item) (if query \<noteq> [] then lc query else []) then Prefix_ci
      else if (\<exists>pre c post. lc item = pre @ c # (if query \<noteq> [] then lc query else []) @ post
                 \<and> c \<in> {CHR '' '', CHR ''_'', CHR ''/'', CHR ''-''})
        then Word_boundary
      else No_match)"
  unfolding classify_def Let_def follows_boundary_chars by simp

text \<open>
  Claim C2. \<open>triage_raw\<close> puts every item in the bucket of the first test that holds, in
  this order: (1) the lower-cased projected string equals the lower-cased query: exact;
  (2) the projected string as it is starts with the query as it is: case-sensitive prefix;
  (3) the lower-cased string starts with the lower-cased query: case-insensitive prefix;
  (4) somewhere in the lower-cased string one of the characters space, underscore, slash,
  hyphen is followed at once by the lower-cased query: word boundary; (5) none. Test (4) is
  what the pattern built from the escaped query decides: the third conjunct. The
  lower-cased query is the empty string when the query is empty, as in the source.
\<close>

theorem triage_raw_priority_order:
  "triage_raw toLowerCase query objs get_item =
     \<lparr>exact_matches = filter (in_bucket toLowerCase query get_item Exact) objs,
      begins_with_case_sensitive_matches = filter (in_bucket toLowerCase query get_item Prefix_cs) objs,
      begins_with_case_insensitive_matches = filter (in_bucket toLowerCase query get_item Prefix_ci) objs,
      word_boundary_matches = filter (in_bucket toLowerCase query get_item Word_boundary) objs,
      no_matches = filter (in_bucket toLowerCase query get_item No_match) objs\<rparr>
   \<and> in_bucket toLowerCase query get_item b obj =
       (b = (if toLowerCase (get_item obj) = (if query \<noteq> [] then toLowerCase query else [])
               then Exact
             else if startsWith (get_item obj) query then Prefix_cs
             else if startsWith (toLowerCase (get_item obj))
                       (if query \<noteq> [] then toLowerCase query else [])
               then Prefix_ci
             else if (\<exists>pre c post.
                        toLowerCase (get_item obj) =
                          pre @ c # (if query \<noteq> [] then toLowerCase query else []) @ post
                        \<and> c \<in> {CHR '' '', CHR ''_'', CHR ''/'', CHR ''-''})
               then Word_boundary
             else No_match))
   \<and> RegExp_test (''['' @ word_boundary_chars @ '']'' @ escapeRegExp lower_query) lower_item
       = Some (\<exists>pre c post. lower_item = pre @ c # lower_query @ post
                 \<and> c \<in> {CHR '' '', CHR ''_'', CHR ''/'', CHR ''-''})"
proof -
  have "in_bucket toLowerCase query get_item b obj =
          (b = classify toLowerCase query (get_item obj))"
    by (auto simp: in_bucket_def)
  moreover have "RegExp_test (''['' @ word_boundary_chars @ '']'' @ escapeRegExp lower_query) lower_item
       = Some (\<exists>pre c post. lower_item = pre @ c # lower_query @ post
                 \<and> c \<in> {CHR '' '', CHR ''_'', CHR ''/'', CHR ''-''})"
    unfolding RegExp_test_boundary follows_boundary_chars by (rule refl)
  ultimately show ?thesis
    unfolding classify_unfold [symmetric] using triage_raw_filter [of toLowerCase query objs get_item]
    by blast
qed

section \<open>The empty query\<close>

lemma classify_empty_query:
  assumes "\<And>s. (lc s = []) = (s = [])"
  shows "classify lc [] item = (if item = [] then Exact else Prefix_cs)"
  using assms by (simp add: classify_def startsWith_def)

text \<open>
  Claim C9. For the empty query, \<open>triage_raw\<close> puts the items whose projected string is
  empty in \<open>exact_matches\<close> and all others in \<open>begins_with_case_sensitive_matches\<close>, both in
  input order; the other three buckets are empty. The hypothesis is a fact of
  \<^verbatim>\<open>toLowerCase\<close>: it gives the empty string for the empty string and for no other.
\<close>

theorem triage_raw_empty_query:
  assumes "\<And>s. (toLowerCase s = []) = (s = [])"
  shows "triage_raw toLowerCase [] objs get_item =
     \<lparr>exact_matches = filter (\<lambda>obj. get_item obj = []) objs,
      begins_with_case_sensitive_matches = filter (\<lambda>obj. get_item obj \<noteq> []) objs,
      begins_with_case_insensitive_matches = [],
      word_boundary_matches = [],
      no_matches = []\<rparr>"
  unfolding triage_raw_filter
  by (simp add: in_bucket_def [abs_def] classify_empty_query [of toLowerCase, OF assms])

lemma ascii_toLowerCase_empty: "(ascii_toLowerCase s = []) = (s = [])"
  by (simp add: ascii_toLowerCase_def)

theorem triage_raw_empty_query_witness:
  "(\<forall>s. (ascii_toLowerCase s = []) = (s = []))
   \<and> triage_raw ascii_toLowerCase [] [''ab'', [], ''C''] (\<lambda>x. x) =
     \<lparr>exact_matches = [[]],
      begins_with_case_sensitive_matches = [''ab'', ''C''],
      begins_with_case_insensitive_matches = [],
      word_boundary_matches = [],
      no_matches = []\<rparr>"
  using triage_raw_empty_query [of ascii_toLowerCase "[''ab'', [], ''C'']" "\<lambda>x. x",
      OF ascii_toLowerCase_empty]
  by (simp add: ascii_toLowerCase_empty)


section \<open>Properties of the string matcher\<close>

lemma query_matches_string_multi:
  "includes_str query split_char \<Longrightarrow>
     query_matches_string lc nfkd mark query source_str split_char =
       (\<forall>q \<in> set (split query split_char).
          \<exists>s \<in> set (split (remove_diacritics nfkd mark (lc source_str)) split_char).
            \<exists>post. s = q @ post)"
  by (simp add: query_matches_string_def Let_def list_all_iff list_ex_iff startsWith_iff)

lemma query_matches_string_single:
  "\<not> includes_str query split_char \<Longrightarrow>
     query_matches_string lc nfkd mark query source_str split_char =
       (\<exists>pre post. remove_diacritics nfkd mark (lc source_str) = pre @ query @ post)"
  by (simp add: query_matches_string_def Let_def includes_str_iff)

lemmas latin_eval = utf16_normalize_NFKD_def utf16_replace_marks_def NFKD_def
  latin_decompose_def latin_ccc_def latin_mark_def latin_toLowerCase_def
  high_surrogate_def low_surrogate_def

lemmas ascii_eval = query_matches_string_def Let_def remove_diacritics_def
  ascii_normalize_NFKD_def ascii_replace_marks_def ascii_toLowerCase_def ascii_lower_char_def
  split_def startsWith_def

text \<open>
  Claim C3. When the query contains the separator, \<open>query_matches_string\<close> holds exactly
  when every token of the query (split on the separator) is a prefix of at least one token
  of the lower-cased, diacritic-stripped source (split on the separator): neither the
  order nor the number of tokens matters, and two tokens of the query may be prefixes of
  the same token of the source. The query \<^verbatim>\<open>ab c\<close> matches \<^verbatim>\<open>ab cd ef\<close> on the
  separator space, the query \<^verbatim>\<open>b cd\<close> does not.
\<close>

theorem query_matches_string_every_token_is_prefix:
  "(includes_str query split_char \<longrightarrow>
      query_matches_string toLowerCase normalize_NFKD replace_marks query source_str split_char =
        (\<forall>q \<in> set (split query split_char).
           \<exists>s \<in> set (split (remove_diacritics normalize_NFKD replace_marks
                                (toLowerCase source_str)) split_char).
             \<exists>post. s = q @ post))
   \<and> query_matches_string ascii_toLowerCase ascii_normalize_NFKD ascii_replace_marks
        ''ab c'' ''ab cd ef'' '' ''
   \<and> \<not> query_matches_string ascii_toLowerCase ascii_normalize_NFKD ascii_replace_marks
        ''b cd'' ''ab cd ef'' '' ''"
proof (intro conjI impI)
  assume "includes_str query split_char"
  then show "query_matches_string toLowerCase normalize_NFKD replace_marks query source_str split_char =
        (\<forall>q \<in> set (split query split_char).
           \<exists>s \<in> set (split (remove_diacritics normalize_NFKD replace_marks
                                (toLowerCase source_str)) split_char).
             \<exists>post. s = q @ post)"
    by (rule query_matches_string_multi)
next
  show "query_matches_string ascii_toLowerCase ascii_normalize_NFKD ascii_replace_marks
        ''ab c'' ''ab cd ef'' '' ''"
    by (simp add: ascii_eval)
next
  show "\<not> query_matches_string ascii_toLowerCase ascii_normalize_NFKD ascii_replace_marks
        ''b cd'' ''ab cd ef'' '' ''"
    by (simp add: ascii_eval)
qed

theorem query_matches_string_every_token_is_prefix_witness:
  "includes_str ''a a'' '' ''
   \<and> query_matches_string ascii_toLowerCase ascii_normalize_NFKD ascii_replace_marks ''a a'' ''Ab'' '' ''"
proof -
  have h: "includes_str ''a a'' '' ''"
    by (simp add: startsWith_def)
  have t: "\<forall>q \<in> set (split ''a a'' '' '').
         \<exists>s \<in> set (split (remove_diacritics ascii_normalize_NFKD ascii_replace_marks
                              (ascii_toLowerCase ''Ab'')) '' '').
           \<exists>post. s = q @ post"
    by (simp add: ascii_eval)
  from query_matches_string_every_token_is_prefix
         [of "''a a''" "'' ''" ascii_toLowerCase ascii_normalize_NFKD ascii_replace_marks "''Ab''"] h t
  show ?thesis by blast
qed

text \<open>
  Claim C4, as stated, fails twice: the query is compared as it is given, it is not
  lower-cased (callers lower-case it), and the source is stripped of diacritics as well as
  lower-cased. The query \<^verbatim>\<open>AB\<close> does not match the source \<^verbatim>\<open>xaby\<close>, although the
  lower-cased source contains the lower-cased query; the query \<^verbatim>\<open>e\<close> matches the
  source U+00E9, although the lower-cased source does not contain it.
\<close>

theorem query_matches_string_lowercase_query_counterexample:
  "\<not> includes_str ''AB'' ''_''
   \<and> query_matches_string ascii_toLowerCase ascii_normalize_NFKD ascii_replace_marks ''AB'' ''xaby'' ''_''
       \<noteq> includes_str (ascii_toLowerCase ''xaby'') (ascii_toLowerCase ''AB'')
   \<and> \<not> includes_str [0x65] [0x5F :: nat]
   \<and> query_matches_string latin_toLowerCase (utf16_normalize_NFKD latin_decompose latin_ccc)
         (utf16_replace_marks latin_mark)
         [0x65] [0xE9] [0x5F]
       \<noteq> includes_str (latin_toLowerCase [0xE9]) (latin_toLowerCase [0x65])"
  by (simp add: ascii_eval latin_eval)

text \<open>
  Claim C4, amended. When the query does not contain the separator,
  \<open>query_matches_string\<close> holds exactly when the lower-cased, diacritic-stripped source
  contains the query, as it is given, as a contiguous substring. The query \<^verbatim>\<open>ab\<close>
  matches \<^verbatim>\<open>xaby\<close> and does not match \<^verbatim>\<open>xy\<close>, on the separator \<^verbatim>\<open>_\<close>.
\<close>

theorem query_matches_string_single_token:
  "(\<not> includes_str query split_char \<longrightarrow>
      query_matches_string toLowerCase normalize_NFKD replace_marks query source_str split_char =
        (\<exists>pre post. remove_diacritics normalize_NFKD replace_marks (toLowerCase source_str)
                       = pre @ query @ post))
   \<and> query_matches_string ascii_toLowerCase ascii_normalize_NFKD ascii_replace_marks ''ab'' ''xaby'' ''_''
   \<and> \<not> query_matches_string ascii_toLowerCase ascii_normalize_NFKD ascii_replace_marks ''ab'' ''xy'' ''_''"
proof (intro conjI impI)
  assume "\<not> includes_str query split_char"
  then show "query_matches_string toLowerCase normalize_NFKD replace_marks query source_str split_char =
        (\<exists>pre post. remove_diacritics normalize_NFKD replace_marks (toLowerCase source_str)
                       = pre @ query @ post)"
    by (rule query_matches_string_single)
next
  show "query_matches_string ascii_toLowerCase ascii_normalize_NFKD ascii_replace_marks ''ab'' ''xaby'' ''_''"
    by (simp add: ascii_eval)
next
  show "\<not> query_matches_string ascii_toLowerCase ascii_normalize_NFKD ascii_replace_marks ''ab'' ''xy'' ''_''"
    by (simp add: ascii_eval)
qed

theorem query_matches_string_single_token_witness:
  "\<not> includes_str ''am'' '' ''
   \<and> query_matches_string ascii_toLowerCase ascii_normalize_NFKD ascii_replace_marks
        ''am'' ''King Hamlet'' '' ''"
proof -
  have h: "\<not> includes_str ''am'' '' ''"
    by (simp add: startsWith_def)
  have "remove_diacritics ascii_normalize_NFKD ascii_replace_marks (ascii_toLowerCase ''King Hamlet'')
          = ''king h'' @ ''am'' @ ''let''"
    by (simp add: ascii_eval)
  then have t: "\<exists>pre post. remove_diacritics ascii_normalize_NFKD ascii_replace_marks
                    (ascii_toLowerCase ''King Hamlet'') = pre @ ''am'' @ post"
    by blast
  from query_matches_string_single_token
         [of "''am''" "'' ''" ascii_toLowerCase ascii_normalize_NFKD ascii_replace_marks "''King Hamlet''"] h t
  show ?thesis by blast
qed

section \<open>Properties of triage with and without a comparator\<close>

lemma mset_triage_raw:
  "mset (exact_matches (triage_raw lc query objs get_item)) +
   mset (begins_with_case_sensitive_matches (triage_raw lc query objs get_item)) +
   mset (begins_with_case_insensitive_matches (triage_raw lc query objs get_item)) +
   mset (word_boundary_matches (triage_raw lc query objs get_item)) +
   mset (no_matches (triage_raw lc query objs get_item)) = mset objs"
  unfolding triage_raw_filter using mset_five_buckets [of lc query get_item objs] by simp

lemma triage_None:
  "triage S lc query objs get_item None =
     \<lparr>matches = exact_matches (triage_raw lc query objs get_item) @
                 begins_with_case_sensitive_matches (triage_raw lc query objs get_item) @
                 begins_with_case_insensitive_matches (triage_raw lc query objs get_item) @
                 word_boundary_matches (triage_raw lc query objs get_item),
      rest = no_matches (triage_raw lc query objs get_item)\<rparr>"
  by (simp add: triage_def Let_def)

lemma triage_Some:
  "triage S lc query objs get_item (Some cmp) =
     \<lparr>matches = S cmp (exact_matches (triage_raw lc query objs get_item)) @
                 S cmp (begins_with_case_sensitive_matches (triage_raw lc query objs get_item) @
                        begins_with_case_insensitive_matches (triage_raw lc query objs get_item)) @
                 S cmp (word_boundary_matches (triage_raw lc query objs get_item)),
      rest = S cmp (no_matches (triage_raw lc query objs get_item))\<rparr>"
  by (simp add: triage_def Let_def)

lemma mset_triage_None:
  "mset (matches (triage S lc query objs get_item None) @
         rest (triage S lc query objs get_item None)) = mset objs"
  unfolding triage_None using mset_triage_raw [of lc query objs get_item]
  by (simp add: ac_simps)

lemma mset_triage_Some:
  assumes "\<And>c xs. mset (S c xs) = mset xs"
  shows "mset (matches (triage S lc query objs get_item (Some cmp)) @
               rest (triage S lc query objs get_item (Some cmp))) = mset objs"
  unfolding triage_Some using mset_triage_raw [of lc query objs get_item]
  by (simp add: assms ac_simps)

lemma mset_insert_by: "mset (insert_by cmp x xs) = add_mset x (mset xs)"
  by (induction xs) simp_all

lemma mset_stable_sort: "mset (stable_sort cmp xs) = mset xs"
  by (induction xs) (simp_all add: mset_insert_by)

text \<open>
  Claim C7. With a comparator, \<open>triage\<close> returns as \<open>matches\<close> the sorted exact matches,
  then the case-sensitive prefix matches followed by the case-insensitive ones, sorted as
  one group, then the sorted word-boundary matches, and as \<open>rest\<close> the sorted non-matches.
  Without a comparator, \<open>matches\<close> is the four tiers one after the other and \<open>rest\<close> is the
  non-matches, both unsorted. In both cases \<open>matches\<close> followed by \<open>rest\<close> is a permutation of
  the input: with a comparator because sorting permutes its argument.
\<close>

theorem triage_sorts_each_tier:
  "triage Array_sort toLowerCase query objs get_item (Some cmp) =
     \<lparr>matches =
        Array_sort cmp (exact_matches (triage_raw toLowerCase query objs get_item)) @
        Array_sort cmp
          (begins_with_case_sensitive_matches (triage_raw toLowerCase query objs get_item) @
           begins_with_case_insensitive_matches (triage_raw toLowerCase query objs get_item)) @
        Array_sort cmp (word_boundary_matches (triage_raw toLowerCase query objs get_item)),
      rest = Array_sort cmp (no_matches (triage_raw toLowerCase query objs get_item))\<rparr>
   \<and> triage Array_sort toLowerCase query objs get_item None =
     \<lparr>matches =
        exact_matches (triage_raw toLowerCase query objs get_item) @
        begins_with_case_sensitive_matches (triage_raw toLowerCase query objs get_item) @
        begins_with_case_insensitive_matches (triage_raw toLowerCase query objs get_item) @
        word_boundary_matches (triage_raw toLowerCase query objs get_item),
      rest = no_matches (triage_raw toLowerCase query objs get_item)\<rparr>
   \<and> mset (matches (triage Array_sort toLowerCase query objs get_item None) @
            rest (triage Array_sort toLowerCase query objs get_item None)) = mset objs
   \<and> ((\<forall>c xs. mset (Array_sort c xs) = mset xs) \<longrightarrow>
        mset (matches (triage Array_sort toLowerCase query objs get_item (Some cmp)) @
              rest (triage Array_sort toLowerCase query objs get_item (Some cmp))) = mset objs)"
  using triage_Some [of Array_sort toLowerCase query objs get_item cmp]
    triage_None [of Array_sort toLowerCase query objs get_item]
    mset_triage_None [of Array_sort toLowerCase query objs get_item]
    mset_triage_Some [of Array_sort toLowerCase query objs get_item cmp]
  by blast

theorem triage_sorts_each_tier_witness:
  "(\<forall>c xs. mset (stable_sort c xs) = mset (xs :: string list))
   \<and> triage stable_sort ascii_toLowerCase ''a'' [''abcd'', ''Ab'', ''x-a'', ''x'']
         (\<lambda>x. x) (Some (\<lambda>a b. int (length a) - int (length b)))
       = \<lparr>matches = [''Ab'', ''abcd'', ''x-a''], rest = [''x'']\<rparr>
   \<and> mset (matches (triage stable_sort ascii_toLowerCase ''a'' [''abcd'', ''Ab'', ''x-a'', ''x'']
                      (\<lambda>x. x) (Some (\<lambda>a b. int (length a) - int (length b)))) @
           rest (triage stable_sort ascii_toLowerCase ''a'' [''abcd'', ''Ab'', ''x-a'', ''x'']
                      (\<lambda>x. x) (Some (\<lambda>a b. int (length a) - int (length b)))))
       = mset [''abcd'', ''Ab'', ''x-a'', ''x'']"
proof -
  have h: "\<forall>c xs. mset (stable_sort c xs) = mset (xs :: string list)"
    by (simp add: mset_stable_sort)
  have e: "triage stable_sort ascii_toLowerCase ''a'' [''abcd'', ''Ab'', ''x-a'', ''x'']
         (\<lambda>x. x) (Some (\<lambda>a b. int (length a) - int (length b)))
       = \<lparr>matches = [''Ab'', ''abcd'', ''x-a''], rest = [''x'']\<rparr>"
    by code_simp
  from triage_sorts_each_tier
         [of stable_sort ascii_toLowerCase "''a''" "[''abcd'', ''Ab'', ''x-a'', ''x'']" "\<lambda>x. x"
             "\<lambda>a b. int (length a) - int (length b)"] h e
  show ?thesis by blast
qed


section \<open>Properties of the emoji ranking\<close>

lemma foldl_unique_push:
  "\<exists>zs. foldl (unique_push R) (codes, res) xs =
          (codes \<union> emoji_code ` {e \<in> set zs. is_unicode_emoji e}, res @ zs)
        \<and> subseq zs xs"
proof (induction xs arbitrary: codes res)
  case Nil
  show ?case by simp
next
  case (Cons x xs)
  show ?case
  proof (cases "\<not> is_unicode_emoji x \<or> (emoji_code x \<notin> codes \<and> emoji_name x \<notin> R)")
    case True
    then have step: "unique_push R (codes, res) x =
        (if is_unicode_emoji x then insert (emoji_code x) codes else codes, res @ [x])"
      by auto
    obtain zs where zs: "foldl (unique_push R)
          (if is_unicode_emoji x then insert (emoji_code x) codes else codes, res @ [x]) xs =
          ((if is_unicode_emoji x then insert (emoji_code x) codes else codes)
             \<union> emoji_code ` {e \<in> set zs. is_unicode_emoji e}, (res @ [x]) @ zs)"
        and sub: "subseq zs xs"
      using Cons.IH by blast
    have "foldl (unique_push R) (codes, res) (x # xs) =
          (codes \<union> emoji_code ` {e \<in> set (x # zs). is_unicode_emoji e}, res @ x # zs)"
      unfolding foldl_Cons step zs by auto
    moreover have "subseq (x # zs) (x # xs)" using sub by simp
    ultimately show ?thesis by blast
  next
    case False
    then have step: "unique_push R (codes, res) x = (codes, res)"
      by auto
    obtain zs where zs: "foldl (unique_push R) (codes, res) xs =
          (codes \<union> emoji_code ` {e \<in> set zs. is_unicode_emoji e}, res @ zs)"
        and sub: "subseq zs xs"
      using Cons.IH by blast
    have "foldl (unique_push R) (codes, res) (x # xs) =
          (codes \<union> emoji_code ` {e \<in> set zs. is_unicode_emoji e}, res @ zs)"
      unfolding foldl_Cons step zs by simp
    moreover have "subseq zs (x # xs)" using sub by (rule list_emb_Cons)
    ultimately show ?thesis by blast
  qed
qed

lemma foldl_unique_push_start:
  "foldl (unique_push R) ({}, []) xs =
     (emoji_code ` {e \<in> set (remove_duplicates R xs). is_unicode_emoji e}, remove_duplicates R xs)"
  using foldl_unique_push [of R "{}" "[]" xs] by (auto simp: remove_duplicates_def)

lemma subseq_remove_duplicates: "subseq (remove_duplicates R xs) xs"
  using foldl_unique_push [of R "{}" "[]" xs] by (auto simp: remove_duplicates_def)

lemma remove_duplicates_append:
  "\<exists>zs. remove_duplicates R (xs @ ys) = remove_duplicates R xs @ zs \<and> subseq zs ys"
proof -
  obtain zs where "foldl (unique_push R)
      (emoji_code ` {e \<in> set (remove_duplicates R xs). is_unicode_emoji e}, remove_duplicates R xs) ys
        = (emoji_code ` {e \<in> set (remove_duplicates R xs). is_unicode_emoji e}
             \<union> emoji_code ` {e \<in> set zs. is_unicode_emoji e}, remove_duplicates R xs @ zs)"
      and "subseq zs ys"
    using foldl_unique_push by blast
  then have "remove_duplicates R (xs @ ys) = remove_duplicates R xs @ zs \<and> subseq zs ys"
    by (simp add: remove_duplicates_def [of R "xs @ ys"] foldl_unique_push_start)
  then show ?thesis by blast
qed

lemma remove_duplicates_snoc:
  "remove_duplicates R (xs @ [e]) =
     remove_duplicates R xs @
       (if is_unicode_emoji e \<and>
           (emoji_code e \<in> emoji_code ` {k \<in> set (remove_duplicates R xs). is_unicode_emoji k}
            \<or> emoji_name e \<in> R)
        then [] else [e])"
  by (simp add: remove_duplicates_def [of R "xs @ [e]"] foldl_unique_push_start)


lemma mset_subseq: "subseq xs ys \<Longrightarrow> mset xs \<subseteq># mset ys"
proof (induction rule: list_emb.induct)
  case (list_emb_Nil ys)
  show ?case by simp
next
  case (list_emb_Cons xs ys y)
  then show ?case using subset_mset.trans by fastforce
next
  case (list_emb_Cons2 x y xs ys)
  then show ?case by simp
qed

lemma set_subseq: "subseq xs ys \<Longrightarrow> set xs \<subseteq> set ys"
  by (induction rule: list_emb.induct) auto

lemma mset_prioritise_realm_emojis: "mset (prioritise_realm_emojis emojis) = mset emojis"
  by (simp add: prioritise_realm_emojis_def)

lemma set_prioritise_realm_emojis: "set (prioritise_realm_emojis emojis) = set emojis"
  by (auto simp: prioritise_realm_emojis_def)

lemma mset_sorted_results:
  "mset (sorted_results_with_possible_duplicates S lc objs q) = mset objs"
proof -
  define without where "without = filter (\<lambda>obj. emoji_name obj \<noteq> q) objs"
  define others where "others = filter (\<lambda>obj. \<not> is_popular lc q obj) without"
  have t: "mset (matches (triage S lc q others emoji_name None)) +
           mset (rest (triage S lc q others emoji_name None)) = mset others"
    using mset_triage_None [of S lc q others emoji_name] by simp
  have o: "mset (filter (\<lambda>obj. is_popular lc q obj) without) + mset others = mset without"
    by (simp add: others_def)
  have w: "mset (filter (\<lambda>obj. emoji_name obj = q) objs) + mset without = mset objs"
    by (simp add: without_def)
  have "mset (sorted_results_with_possible_duplicates S lc objs q) =
          mset (filter (\<lambda>obj. emoji_name obj = q) objs) +
          (mset (filter (\<lambda>obj. is_popular lc q obj) without) +
           (mset (matches (triage S lc q others emoji_name None)) +
            mset (rest (triage S lc q others emoji_name None))))"
    by (simp add: sorted_results_with_possible_duplicates_def Let_def without_def others_def
          mset_prioritise_realm_emojis)
  also have "\<dots> = mset objs"
    unfolding t o w ..
  finally show ?thesis .
qed

lemma sorted_results_split:
  "\<exists>rs. sorted_results_with_possible_duplicates S lc objs q =
          filter (\<lambda>obj. emoji_name obj = q) objs @ rs
        \<and> (\<forall>e \<in> set rs. emoji_name e \<noteq> q)"
proof -
  define without where "without = filter (\<lambda>obj. emoji_name obj \<noteq> q) objs"
  define others where "others = filter (\<lambda>obj. \<not> is_popular lc q obj) without"
  define rs where "rs = filter (\<lambda>obj. is_popular lc q obj) without @
      prioritise_realm_emojis (matches (triage S lc q others emoji_name None)) @
      prioritise_realm_emojis (rest (triage S lc q others emoji_name None))"
  have "set (matches (triage S lc q others emoji_name None) @
             rest (triage S lc q others emoji_name None)) = set others"
    using mset_triage_None [of S lc q others emoji_name] by (rule mset_eq_setD)
  then have "set rs \<subseteq> set without"
    by (auto simp: rs_def set_prioritise_realm_emojis others_def)
  then have "\<forall>e \<in> set rs. emoji_name e \<noteq> q"
    by (auto simp: without_def)
  moreover have "sorted_results_with_possible_duplicates S lc objs q =
          filter (\<lambda>obj. emoji_name obj = q) objs @ rs"
    by (simp add: sorted_results_with_possible_duplicates_def Let_def rs_def without_def others_def)
  ultimately show ?thesis by blast
qed

lemma sort_emojis_unfold:
  "sort_emojis S lc objs query =
     remove_duplicates (realm_emoji_names objs)
       (sorted_results_with_possible_duplicates S lc objs (lc (replace_spaces query)))"
  by (simp add: sort_emojis_def Let_def)

lemma sort_emojis_split:
  "\<exists>ps rs. sort_emojis S lc objs query = ps @ rs
     \<and> (\<forall>e \<in> set ps. emoji_name e = lc (replace_spaces query))
     \<and> (\<forall>e \<in> set rs. emoji_name e \<noteq> lc (replace_spaces query))"
proof -
  obtain rs where split: "sorted_results_with_possible_duplicates S lc objs (lc (replace_spaces query))
        = filter (\<lambda>obj. emoji_name obj = lc (replace_spaces query)) objs @ rs"
      and rs: "\<forall>e \<in> set rs. emoji_name e \<noteq> lc (replace_spaces query)"
    using sorted_results_split by blast
  obtain zs where out: "sort_emojis S lc objs query =
        remove_duplicates (realm_emoji_names objs)
          (filter (\<lambda>obj. emoji_name obj = lc (replace_spaces query)) objs) @ zs"
      and zs: "subseq zs rs"
    unfolding sort_emojis_unfold split using remove_duplicates_append by blast
  have "set (remove_duplicates (realm_emoji_names objs)
          (filter (\<lambda>obj. emoji_name obj = lc (replace_spaces query)) objs))
        \<subseteq> set (filter (\<lambda>obj. emoji_name obj = lc (replace_spaces query)) objs)"
    using subseq_remove_duplicates by (rule set_subseq)
  then have "\<forall>e \<in> set (remove_duplicates (realm_emoji_names objs)
          (filter (\<lambda>obj. emoji_name obj = lc (replace_spaces query)) objs)).
        emoji_name e = lc (replace_spaces query)"
    by auto
  moreover have "\<forall>e \<in> set zs. emoji_name e \<noteq> lc (replace_spaces query)"
    using set_subseq [OF zs] rs by blast
  ultimately show ?thesis using out by blast
qed

lemma is_realm_not_unicode: "is_realm_emoji e = (\<not> is_unicode_emoji e)"
  by (cases e) simp_all

lemma remove_duplicates_Nil: "remove_duplicates R [] = []"
  by (simp add: remove_duplicates_def)

lemma remove_duplicates_keeps_realm:
  "filter is_realm_emoji (remove_duplicates R xs) = filter is_realm_emoji xs"
  by (induction xs rule: rev_induct)
     (simp_all add: remove_duplicates_Nil remove_duplicates_snoc is_realm_not_unicode)

lemma remove_duplicates_distinct_codes:
  "distinct (map emoji_code (filter is_unicode_emoji (remove_duplicates R xs)))"
proof (induction xs rule: rev_induct)
  case Nil
  show ?case by (simp add: remove_duplicates_Nil)
next
  case (snoc e xs)
  have codes: "set (map emoji_code (filter is_unicode_emoji (remove_duplicates R xs))) =
      emoji_code ` {k \<in> set (remove_duplicates R xs). is_unicode_emoji k}"
    by auto
  show ?case
    using snoc.IH codes by (simp add: remove_duplicates_snoc del: set_map set_filter)
qed

lemma remove_duplicates_not_shadowed:
  "emoji_name ` {e \<in> set (remove_duplicates R xs). is_unicode_emoji e} \<inter> R = {}"
  by (induction xs rule: rev_induct)
     (auto simp: remove_duplicates_Nil remove_duplicates_snoc)

text \<open>
  Claim C5. In the output of \<open>sort_emojis\<close>, the items whose name equals the query (spaces
  replaced by underscores, then lower-cased) come before all items whose name differs:
  the output is its items of that name followed by its other items, and an item of that
  name never has a larger index than an item of another name. Popularity and the kind of
  emoji play no part.
\<close>

theorem sort_emojis_perfect_matches_first:
  "sort_emojis Array_sort toLowerCase objs query =
     filter (\<lambda>e. emoji_name e = toLowerCase (replace_spaces query))
       (sort_emojis Array_sort toLowerCase objs query) @
     filter (\<lambda>e. emoji_name e \<noteq> toLowerCase (replace_spaces query))
       (sort_emojis Array_sort toLowerCase objs query)
   \<and> (\<forall>i j. i < length (sort_emojis Array_sort toLowerCase objs query)
          \<and> j < length (sort_emojis Array_sort toLowerCase objs query)
          \<and> emoji_name (sort_emojis Array_sort toLowerCase objs query ! i)
              = toLowerCase (replace_spaces query)
          \<and> emoji_name (sort_emojis Array_sort toLowerCase objs query ! j)
              \<noteq> toLowerCase (replace_spaces query)
          \<longrightarrow> i < j)"
proof -
  obtain ps rs where out: "sort_emojis Array_sort toLowerCase objs query = ps @ rs"
    and ps: "\<forall>e \<in> set ps. emoji_name e = toLowerCase (replace_spaces query)"
    and rs: "\<forall>e \<in> set rs. emoji_name e \<noteq> toLowerCase (replace_spaces query)"
    using sort_emojis_split by blast
  have f1: "filter (\<lambda>e. emoji_name e = toLowerCase (replace_spaces query)) (ps @ rs) = ps"
    using ps rs by (simp add: filter_id_conv filter_empty_conv)
  have f2: "filter (\<lambda>e. emoji_name e \<noteq> toLowerCase (replace_spaces query)) (ps @ rs) = rs"
    using ps rs by (simp add: filter_id_conv filter_empty_conv)
  have idx: "i < j"
    if "i < length (ps @ rs)" "j < length (ps @ rs)"
       "emoji_name ((ps @ rs) ! i) = toLowerCase (replace_spaces query)"
       "emoji_name ((ps @ rs) ! j) \<noteq> toLowerCase (replace_spaces query)" for i j
  proof -
    have "i < length ps"
    proof (rule ccontr)
      assume "\<not> i < length ps"
      then have "(ps @ rs) ! i = rs ! (i - length ps)" "i - length ps < length rs"
        using that(1) by (auto simp: nth_append)
      then have "(ps @ rs) ! i \<in> set rs" by simp
      with rs that(3) show False by blast
    qed
    moreover have "length ps \<le> j"
    proof (rule ccontr)
      assume "\<not> length ps \<le> j"
      then have "(ps @ rs) ! j = ps ! j" "j < length ps"
        by (auto simp: nth_append)
      then have "(ps @ rs) ! j \<in> set ps" by simp
      with ps that(4) show False by blast
    qed
    ultimately show ?thesis by simp
  qed
  show ?thesis unfolding out f1 f2 using idx by blast
qed

theorem sort_emojis_perfect_matches_first_witness:
  "sort_emojis stable_sort ascii_toLowerCase
     [UnicodeEmoji ''thumbs_up'' ''1f44d'' (), RealmEmoji ''th'' realm_emoji ()] ''TH''
     = [RealmEmoji ''th'' realm_emoji (), UnicodeEmoji ''thumbs_up'' ''1f44d'' ()]
   \<and> ascii_toLowerCase (replace_spaces ''TH'') = ''th''
   \<and> (0::nat) < 1"
proof -
  have out: "sort_emojis stable_sort ascii_toLowerCase
     [UnicodeEmoji ''thumbs_up'' ''1f44d'' (), RealmEmoji ''th'' realm_emoji ()] ''TH''
     = [RealmEmoji ''th'' realm_emoji (), UnicodeEmoji ''thumbs_up'' ''1f44d'' ()]"
    by code_simp
  have q: "ascii_toLowerCase (replace_spaces ''TH'') = ''th''"
    by code_simp
  have "(0::nat) < 1"
    using sort_emojis_perfect_matches_first
            [of stable_sort ascii_toLowerCase
                "[UnicodeEmoji ''thumbs_up'' ''1f44d'' (), RealmEmoji ''th'' realm_emoji ()]" "''TH''",
             THEN conjunct2, rule_format, of 0 1]
    unfolding out q by simp
  with out q show ?thesis by blast
qed

text \<open>
  Claim C6. \<open>sort_emojis\<close> runs the de-duplication pass over the concatenated list, with the
  names of all realm emojis of the input. The pass starts from nothing and, entry by entry,
  keeps every realm emoji, and drops a unicode emoji exactly when its code is the code of
  a unicode emoji kept before it or its name is the name of a realm emoji of the input.
  So the realm emojis of the result are those of the concatenated list, the unicode emojis
  of the result have different codes, and none of them has the name of a realm emoji of
  the input.
\<close>

theorem sort_emojis_deduplication:
  "sort_emojis Array_sort toLowerCase objs query =
     remove_duplicates (realm_emoji_names objs)
       (sorted_results_with_possible_duplicates Array_sort toLowerCase objs
          (toLowerCase (replace_spaces query)))
   \<and> realm_emoji_names objs = emoji_name ` {c \<in> set objs. is_realm_emoji c}
   \<and> remove_duplicates R [] = []
   \<and> remove_duplicates R (xs @ [e]) =
       remove_duplicates R xs @
         (if is_unicode_emoji e \<and>
             (emoji_code e \<in> emoji_code ` {k \<in> set (remove_duplicates R xs). is_unicode_emoji k}
              \<or> emoji_name e \<in> R)
          then [] else [e])
   \<and> filter is_realm_emoji (remove_duplicates R xs) = filter is_realm_emoji xs
   \<and> distinct (map emoji_code (filter is_unicode_emoji (remove_duplicates R xs)))
   \<and> emoji_name ` {k \<in> set (remove_duplicates R xs). is_unicode_emoji k} \<inter> R = {}
   \<and> sort_emojis stable_sort ascii_toLowerCase
         [UnicodeEmoji ''smile'' ''1f642'' (), UnicodeEmoji ''slight_smile'' ''1f642'' (),
          RealmEmoji ''heart'' realm_emoji (), UnicodeEmoji ''heart'' ''2764'' ()] ''x''
       = [RealmEmoji ''heart'' realm_emoji (), UnicodeEmoji ''smile'' ''1f642'' ()]"
proof -
  have names: "realm_emoji_names objs = emoji_name ` {c \<in> set objs. is_realm_emoji c}"
    by (auto simp: realm_emoji_names_def)
  have ex: "sort_emojis stable_sort ascii_toLowerCase
         [UnicodeEmoji ''smile'' ''1f642'' (), UnicodeEmoji ''slight_smile'' ''1f642'' (),
          RealmEmoji ''heart'' realm_emoji (), UnicodeEmoji ''heart'' ''2764'' ()] ''x''
       = [RealmEmoji ''heart'' realm_emoji (), UnicodeEmoji ''smile'' ''1f642'' ()]"
    by code_simp
  show ?thesis
    using sort_emojis_unfold [of Array_sort toLowerCase objs query] names
      remove_duplicates_Nil [of R] remove_duplicates_snoc [of R xs e]
      remove_duplicates_keeps_realm [of R xs] remove_duplicates_distinct_codes [of R xs]
      remove_duplicates_not_shadowed [of R xs] ex
    by blast
qed

text \<open>
  Claim C10. The list that \<open>sort_emojis\<close> builds before de-duplication (perfect matches,
  popular matches, the triage matches and the triage rest, realm emojis first in each of
  the last two) is a permutation of the input; the result is a subsequence of that list.
  So the result holds only items of the input, each at most as often as the input does.
\<close>

theorem sort_emojis_emits_input_items_once:
  "mset (sorted_results_with_possible_duplicates Array_sort toLowerCase objs
           (toLowerCase (replace_spaces query))) = mset objs
   \<and> subseq (sort_emojis Array_sort toLowerCase objs query)
        (sorted_results_with_possible_duplicates Array_sort toLowerCase objs
           (toLowerCase (replace_spaces query)))
   \<and> mset (sort_emojis Array_sort toLowerCase objs query) \<subseteq># mset objs
   \<and> set (sort_emojis Array_sort toLowerCase objs query) \<subseteq> set objs"
proof -
  have p: "mset (sorted_results_with_possible_duplicates Array_sort toLowerCase objs
           (toLowerCase (replace_spaces query))) = mset objs"
    by (rule mset_sorted_results)
  have s: "subseq (sort_emojis Array_sort toLowerCase objs query)
        (sorted_results_with_possible_duplicates Array_sort toLowerCase objs
           (toLowerCase (replace_spaces query)))"
    unfolding sort_emojis_unfold by (rule subseq_remove_duplicates)
  have m: "mset (sort_emojis Array_sort toLowerCase objs query) \<subseteq># mset objs"
    using mset_subseq [OF s] unfolding p .
  have "set (sort_emojis Array_sort toLowerCase objs query) \<subseteq> set objs"
    using set_mset_mono [OF m] by simp
  with p s m show ?thesis by blast
qed


section \<open>Properties of the removal of diacritics\<close>

lemma set_insert_canonical: "set (insert_canonical ccc c t) = insert c (set t)"
  by (induction t) auto

lemma set_canonical_order: "set (canonical_order ccc s) = set s"
  by (induction s) (simp_all add: set_insert_canonical)

lemma canonical_order_starters:
  "(\<And>c. c \<in> set s \<Longrightarrow> ccc c = 0) \<Longrightarrow> canonical_order ccc s = s"
proof (induction s)
  case Nil
  show ?case by simp
next
  case (Cons c s)
  then have "canonical_order ccc s = s" "ccc c = 0" by simp_all
  then show ?case by (cases s) simp_all
qed

lemma concat_decompose_fixed:
  "(\<And>c. c \<in> set s \<Longrightarrow> decompose c = [c]) \<Longrightarrow> concat (map decompose s) = s"
  by (induction s) simp_all

lemma NFKD_fixed:
  assumes "\<And>c. c \<in> set s \<Longrightarrow> decompose c = [c]" and "\<And>c. c \<in> set s \<Longrightarrow> ccc c = 0"
  shows "NFKD decompose ccc s = s"
  unfolding NFKD_def using assms by (simp add: concat_decompose_fixed canonical_order_starters)

lemma set_NFKD: "set (NFKD decompose ccc s) = (\<Union>c \<in> set s. set (decompose c))"
  by (simp add: NFKD_def set_canonical_order)

lemma code_points_not_high:
  "\<not> high_surrogate u \<Longrightarrow> code_points (u # s) = u # code_points s"
  by (cases s) simp_all

lemma code_points_code_units:
  "(\<And>p. p \<in> set ps \<Longrightarrow> scalar_value p) \<Longrightarrow> code_points (code_units ps) = ps"
proof (induction ps)
  case Nil
  show ?case by simp
next
  case (Cons p ps)
  then have ih: "code_points (code_units ps) = ps" and p: "scalar_value p"
    by simp_all
  show ?case
  proof (cases "0x10000 \<le> p")
    case True
    define k where "k = p - 0x10000"
    have k: "k < 0x100000" "p = 0x10000 + k"
      using True p by (simp_all add: k_def scalar_value_def)
    have "k div 0x400 < 0x400" using k(1) by (simp add: less_mult_imp_div_less)
    then have hi: "high_surrogate (0xD800 + k div 0x400)"
      by (simp add: high_surrogate_def)
    have "k mod 0x400 < 0x400" by simp
    then have lo: "low_surrogate (0xDC00 + k mod 0x400)"
      by (simp add: low_surrogate_def)
    have "code_units (p # ps) = (0xD800 + k div 0x400) # (0xDC00 + k mod 0x400) # code_units ps"
      using True by (simp add: k_def)
    then have "code_points (code_units (p # ps)) = (0x10000 + (k div 0x400) * 0x400 + k mod 0x400) # ps"
      using hi lo ih by simp
    then show ?thesis using k(2) by simp
  next
    case False
    then have "\<not> high_surrogate p"
      using p by (auto simp: scalar_value_def high_surrogate_def)
    then show ?thesis using False ih by (simp add: code_points_not_high)
  qed
qed

lemma code_units_code_points:
  "(\<And>u. u \<in> set s \<Longrightarrow> u < 0x10000) \<Longrightarrow> code_units (code_points s) = s"
proof (induction s rule: code_points.induct)
  case 1
  show ?case by simp
next
  case (2 u)
  then show ?case by simp
next
  case (3 h l s)
  show ?case
  proof (cases "high_surrogate h \<and> low_surrogate l")
    case True
    define a where "a = h - 0xD800"
    define b where "b = l - 0xDC00"
    have ab: "h = 0xD800 + a" "l = 0xDC00 + b" "b < 0x400"
      using True by (auto simp: a_def b_def high_surrogate_def low_surrogate_def)
    have ih: "code_units (code_points s) = s"
      using 3 True by simp
    have "code_points (h # l # s) = (0x10000 + a * 0x400 + b) # code_points s"
      using True by (simp add: a_def b_def)
    moreover have "(a * 0x400 + b) div 0x400 = a" "(a * 0x400 + b) mod 0x400 = b"
      using ab(3) by simp_all
    ultimately show ?thesis using ih ab by simp
  next
    case False
    then have ih: "code_units (code_points (l # s)) = l # s"
      using 3 by simp
    have h: "h < 0x10000" using 3(3) by simp
    have "code_points (h # l # s) = h # code_points (l # s)"
      using False by auto
    then show ?thesis using ih h by simp
  qed
qed

lemma strip_marks_idempotent:
  assumes full: "\<And>c d. d \<in> set (decompose c) \<Longrightarrow> decompose d = [d]"
    and marks: "\<And>c. ccc c \<noteq> 0 \<Longrightarrow> unicode_mark c"
    and t: "t = filter (\<lambda>p. \<not> unicode_mark p) (NFKD decompose ccc ps)"
  shows "filter (\<lambda>p. \<not> unicode_mark p) (NFKD decompose ccc t) = t"
proof -
  have unmarked: "\<not> unicode_mark c" if "c \<in> set t" for c
    using that by (simp add: t)
  have starter: "ccc c = 0" if "c \<in> set t" for c
    using unmarked [OF that] marks by blast
  have fixed: "decompose c = [c]" if "c \<in> set t" for c
  proof -
    from that have "c \<in> set (NFKD decompose ccc ps)"
      by (simp add: t)
    then obtain c0 where "c \<in> set (decompose c0)"
      by (auto simp: set_NFKD)
    then show ?thesis by (rule full)
  qed
  have "NFKD decompose ccc t = t"
    using fixed starter by (rule NFKD_fixed)
  then show ?thesis
    using unmarked by (simp add: filter_id_conv)
qed

lemma remove_diacritics_utf16:
  assumes units: "\<And>u. u \<in> set s \<Longrightarrow> u < 0x10000"
    and scalars: "\<And>p. p \<in> set (code_points s) \<Longrightarrow> scalar_value p"
    and closed: "\<And>c d. scalar_value c \<Longrightarrow> d \<in> set (decompose c) \<Longrightarrow> scalar_value d"
  shows "remove_diacritics (utf16_normalize_NFKD decompose ccc) (utf16_replace_marks unicode_mark) s
         = code_units (filter (\<lambda>p. \<not> unicode_mark p) (NFKD decompose ccc (code_points s)))"
proof -
  have "scalar_value d" if "d \<in> set (NFKD decompose ccc (code_points s))" for d
    using that scalars closed by (auto simp: set_NFKD)
  then have "code_points (code_units (NFKD decompose ccc (code_points s)))
      = NFKD decompose ccc (code_points s)"
    by (rule code_points_code_units)
  then show ?thesis
    by (simp add: remove_diacritics_def utf16_normalize_NFKD_def utf16_replace_marks_def)
qed

lemma code_units_below: "(\<And>p. p \<in> set ps \<Longrightarrow> p < 0x110000) \<Longrightarrow> u \<in> set (code_units ps) \<Longrightarrow> u < 0x10000"
proof (induction ps)
  case Nil
  then show ?case by simp
next
  case (Cons p ps)
  have p: "p < 0x110000" using Cons.prems(1) by simp
  have "(p - 0x10000) div 0x400 < 0x400" using p by (simp add: less_mult_imp_div_less)
  moreover have "(p - 0x10000) mod 0x400 < 0x400" by simp
  ultimately show ?case using Cons by (auto split: if_splits)
qed

text \<open>
  Claim C8, as stated, fails on a string with unpaired surrogates. In the string U+D834
  U+0301 U+DD67 the two surrogates are not a pair, the mark between them is deleted, and
  the result U+D834 U+DD67 is the one code point U+1D167, a mark: the second application
  deletes it and returns the empty string.
\<close>

theorem remove_diacritics_unpaired_surrogates_counterexample:
  "\<not> well_formed [0xD834, 0x301, 0xDD67]
   \<and> remove_diacritics (utf16_normalize_NFKD latin_decompose latin_ccc)
     (utf16_replace_marks latin_mark) [0xD834, 0x301, 0xDD67] = [0xD834, 0xDD67]
   \<and> remove_diacritics (utf16_normalize_NFKD latin_decompose latin_ccc)
       (utf16_replace_marks latin_mark) [0xD834, 0xDD67] = []"
  by (simp add: remove_diacritics_def latin_eval well_formed_def scalar_value_def)

text \<open>
  Claim C8, amended. On every well-formed string (one without unpaired surrogates)
  \<open>remove_diacritics\<close> is idempotent, where \<^verbatim>\<open>normalize("NFKD")\<close> applies the
  compatibility decomposition and the canonical ordering of the Unicode standard to the
  code points of the string and \<^verbatim>\<open>replace\<close> deletes the code points that are marks. The
  other hypotheses are three facts of the character database: a decomposition is full (its
  characters decompose to themselves), a character of non-zero combining class is a mark,
  and a scalar value decomposes into scalar values.
\<close>

theorem remove_diacritics_idempotent_well_formed:
  assumes wf: "well_formed s"
    and full: "\<And>c d. d \<in> set (decompose c) \<Longrightarrow> decompose d = [d]"
    and marks: "\<And>c. ccc c \<noteq> 0 \<Longrightarrow> unicode_mark c"
    and closed: "\<And>c d. scalar_value c \<Longrightarrow> d \<in> set (decompose c) \<Longrightarrow> scalar_value d"
  shows "remove_diacritics (utf16_normalize_NFKD decompose ccc) (utf16_replace_marks unicode_mark)
           (remove_diacritics (utf16_normalize_NFKD decompose ccc)
              (utf16_replace_marks unicode_mark) s)
         = remove_diacritics (utf16_normalize_NFKD decompose ccc)
             (utf16_replace_marks unicode_mark) s"
proof -
  define t where "t = filter (\<lambda>p. \<not> unicode_mark p) (NFKD decompose ccc (code_points s))"
  have units: "u < 0x10000" if "u \<in> set s" for u
    using wf that by (simp add: well_formed_def list_all_iff)
  have scalars: "scalar_value p" if "p \<in> set (code_points s)" for p
    using wf that by (simp add: well_formed_def list_all_iff)
  have first: "remove_diacritics (utf16_normalize_NFKD decompose ccc)
      (utf16_replace_marks unicode_mark) s = code_units t"
    unfolding t_def using units scalars closed by (rule remove_diacritics_utf16)
  have t_scalar: "scalar_value p" if "p \<in> set t" for p
    using that scalars closed by (auto simp: t_def set_NFKD)
  have t_points: "code_points (code_units t) = t"
    using t_scalar by (rule code_points_code_units)
  have t_units: "u < 0x10000" if "u \<in> set (code_units t)" for u
  proof (rule code_units_below [OF _ that])
    fix p assume "p \<in> set t"
    then show "p < 0x110000" using t_scalar by (simp add: scalar_value_def)
  qed
  have "remove_diacritics (utf16_normalize_NFKD decompose ccc)
      (utf16_replace_marks unicode_mark) (code_units t)
      = code_units (filter (\<lambda>p. \<not> unicode_mark p) (NFKD decompose ccc (code_points (code_units t))))"
    using t_units _ closed
  proof (rule remove_diacritics_utf16)
    fix p assume "p \<in> set (code_points (code_units t))"
    then show "scalar_value p" using t_scalar by (simp add: t_points)
  qed
  also have "\<dots> = code_units t"
    unfolding t_points using strip_marks_idempotent [OF full marks t_def] by simp
  finally show ?thesis unfolding first .
qed

lemma latin_decompose_full: "d \<in> set (latin_decompose c) \<Longrightarrow> latin_decompose d = [d]"
  by (auto simp: latin_decompose_def split: if_splits)

lemma latin_ccc_mark: "latin_ccc c \<noteq> 0 \<Longrightarrow> latin_mark c"
  by (auto simp: latin_ccc_def latin_mark_def split: if_splits)

lemma latin_decompose_scalar:
  "scalar_value c \<Longrightarrow> d \<in> set (latin_decompose c) \<Longrightarrow> scalar_value d"
  by (auto simp: latin_decompose_def scalar_value_def split: if_splits)

theorem remove_diacritics_idempotent_well_formed_witness:
  "well_formed [0x212B, 0x71, 0x301, 0x323, 0xD83D, 0xDC4D, 0xE9]
   \<and> remove_diacritics (utf16_normalize_NFKD latin_decompose latin_ccc)
       (utf16_replace_marks latin_mark) [0x212B, 0x71, 0x301, 0x323, 0xD83D, 0xDC4D, 0xE9]
       = [0x41, 0x71, 0xD83D, 0xDC4D, 0x65]
   \<and> remove_diacritics (utf16_normalize_NFKD latin_decompose latin_ccc)
       (utf16_replace_marks latin_mark) [0x41, 0x71, 0xD83D, 0xDC4D, 0x65]
       = [0x41, 0x71, 0xD83D, 0xDC4D, 0x65]"
proof -
  have wf: "well_formed [0x212B, 0x71, 0x301, 0x323, 0xD83D, 0xDC4D, 0xE9]"
    by (simp add: well_formed_def scalar_value_def high_surrogate_def low_surrogate_def)
  have r: "remove_diacritics (utf16_normalize_NFKD latin_decompose latin_ccc)
       (utf16_replace_marks latin_mark) [0x212B, 0x71, 0x301, 0x323, 0xD83D, 0xDC4D, 0xE9]
       = [0x41, 0x71, 0xD83D, 0xDC4D, 0x65]"
    by (simp add: remove_diacritics_def latin_eval)
  from remove_diacritics_idempotent_well_formed
         [of "[0x212B, 0x71, 0x301, 0x323, 0xD83D, 0xDC4D, 0xE9]"
             latin_decompose latin_ccc latin_mark,
          OF wf latin_decompose_full latin_ccc_mark latin_decompose_scalar]
  have "remove_diacritics (utf16_normalize_NFKD latin_decompose latin_ccc)
       (utf16_replace_marks latin_mark) [0x41, 0x71, 0xD83D, 0xDC4D, 0x65]
       = [0x41, 0x71, 0xD83D, 0xDC4D, 0x65]"
    unfolding r .
  with wf r show ?thesis by blast
qed


end
